theory Spec2Isabelle
  imports Complex_Main "HOL-Library.Word"
begin

unbundle bit_operations_syntax

section \<open>The PMS5003 reader (src/pms5003.c)\<close>

text \<open>
  The program reads a serial byte stream, finds the two marker bytes
  \<open>0x42 0x4d\<close>, reads a block of 15 unsigned shorts after them, swaps the
  bytes of each, checks the declared length and the byte sum, converts twelve of
  the words to \<open>double\<close>, adds them into the global \<open>avg_sum\<close>/\<open>avg_num\<close>
  and, when no averaging time was given, prints them at once. With an averaging
  time the \<open>SIGALRM\<close> handler divides the sums, prints one record and exits.

  Modelling decisions.
  \<^item> A byte is an \<open>8 word\<close>, an \<open>unsigned short\<close> a \<open>16 word\<close>, a
    \<open>size_t\<close> a \<open>64 word\<close> (LP64 Linux, the platform of \<open>byteswap.h\<close>).
  \<^item> The host is little-endian, as the byte swap of the big-endian wire words
    presupposes: the first byte of an \<open>unsigned short\<close> in memory is its low byte.
    The memory of the \<open>data\<close> array is written out as a byte list wherever the
    code looks at it through \<open>unsigned char *\<close>.
  \<^item> The byte source is the finite list of the bytes still to come. A
    \<open>forced_read\<close> that finds too few of them is the \<open>read() < 1\<close> branch,
    which ends the process with \<open>exit(-1)\<close>.
  \<^item> A \<open>double\<close> is modelled by the rational it stands for. A division of
    doubles is the exact quotient rounded once to the nearest double (IEEE 754
    binary64 in the default rounding mode, as on x86-64 and AArch64), a tie
    going to the even significand (\<open>round_double\<close>, \<open>double_div\<close>); so is the conversion
    of a \<open>size_t\<close>. The conversion of an \<open>unsigned short\<close> is exact. The
    additions into \<open>avg_sum\<close> are written without rounding: the sums are whole
    numbers, and a double holds every whole number up to \<open>2^53\<close>, which the sums
    stay below for the first \<open>2^37\<close> frames. The exponent range of the format is
    not modelled: every quotient of this program lies between \<open>2^-64\<close> and
    \<open>2^16\<close>.
  \<^item> The signal handler is applied to the state between two passes of the loop.
    A signal that arrives in the middle of lines 170-175 is not modelled.
  \<^item> The clock is outside the program: the elapsed seconds that \<open>print_data\<close>
    obtains from \<open>time\<close> and \<open>difftime\<close> are an argument.
  \<^item> \<open>T_VERSION\<close> is a build-time macro (0 in the repository); the model takes
    it as the argument \<open>tv\<close>, so that both builds are covered.
\<close>

type_synonym byte = "8 word"
type_synonym ushort = "16 word"
type_synonym size_t = "64 word"

subsection \<open>forced\_read\<close>

text \<open>
  \<open>forced_read fd buf count\<close> loops over \<open>read\<close> until \<open>count\<close> bytes have
  arrived and exits with status -1 as soon as one \<open>read\<close> returns less than 1.
  The loop is a do-while, so a request of 0 bytes also reaches the fatal branch
  (\<open>read\<close> returns 0). \<open>None\<close> is the fatal exit; otherwise the buffer and the
  rest of the stream.
\<close>

definition forced_read :: "nat \<Rightarrow> byte list \<Rightarrow> (byte list \<times> byte list) option" where
  "forced_read count inp =
     (if count = 0 \<or> length inp < count then None
      else Some (take count inp, drop count inp))"

subsection \<open>The frame buffer: unsigned short data[15]\<close>

text \<open>An \<open>unsigned short\<close> whose two bytes in memory are \<open>b0\<close>, \<open>b1\<close> (little-endian host).\<close>

definition load_ushort :: "byte \<Rightarrow> byte \<Rightarrow> ushort" where
  "load_ushort b0 b1 = ucast b0 OR push_bit 8 (ucast b1)"

text \<open>The two bytes of an \<open>unsigned short\<close> in memory, lowest address first.\<close>

definition store_ushort :: "ushort \<Rightarrow> byte list" where
  "store_ushort w = [ucast w, ucast (drop_bit 8 w)]"

text \<open>The array that \<open>forced_read(fd, &data, sizeof(data))\<close> leaves in \<open>data\<close>.\<close>

fun ushorts_of_bytes :: "byte list \<Rightarrow> ushort list" where
  "ushorts_of_bytes (b0 # b1 # bs) = load_ushort b0 b1 # ushorts_of_bytes bs"
| "ushorts_of_bytes _ = []"

text \<open>The array seen through \<open>(unsigned char * ) data\<close>.\<close>

definition bytes_of_ushorts :: "ushort list \<Rightarrow> byte list" where
  "bytes_of_ushorts ws = concat (map store_ushort ws)"

text \<open>\<open>__bswap_16(x)\<close> of glibc: \<open>((x >> 8) & 0xff) | ((x & 0xff) << 8)\<close>.\<close>

definition bswap_16 :: "ushort \<Rightarrow> ushort" where
  "bswap_16 x = (drop_bit 8 x AND 0xff) OR push_bit 8 (x AND 0xff)"

text \<open>
  Lines 164-166:
  \<^verbatim>\<open>size_t check_sum = 0x42 + 0x4d;
  for (size_t i = 0; i < sizeof(data) - sizeof(data[0]); i++)
    check_sum += ((unsigned char * ) data)[i];\<close>
  \<open>sizeof(data) - sizeof(data[0])\<close> is \<open>30 - 2 = 28\<close>. The additions are those of
  \<open>size_t\<close>, which wrap.
\<close>

definition check_sum :: "ushort list \<Rightarrow> size_t" where
  "check_sum data =
     fold (\<lambda>i s. s + ucast (bytes_of_ushorts data ! i)) [0..<28] (0x42 + 0x4d)"

text \<open>
  The frame reader, lines 154-168: read 30 bytes, swap every word, check the
  length word against \<open>2 * 13 + 2\<close>, check the sum against \<open>data[14]\<close>. Both
  failures are a \<open>continue\<close>. \<open>frame_reader\<close> takes the 30 bytes that
  \<open>forced_read\<close> delivered.
\<close>

datatype frame_result = Rejected | Forwarded "ushort list"

definition frame_reader :: "byte list \<Rightarrow> frame_result" where
  "frame_reader raw =
     (let data = map bswap_16 (ushorts_of_bytes raw) in
      if data ! 0 \<noteq> 2 * 13 + 2 then Rejected
      else if check_sum data \<noteq> ucast (data ! 14) then Rejected
      else Forwarded data)"

subsection \<open>print\_data\<close>

text \<open>
  \<open>DATA11_STRING\<close> and \<open>DATA12_STRING\<close> are chosen by \<open>#if T_VERSION == 0\<close>,
  the division by 10 in \<open>print_data\<close> by \<open>#if T_VERSION == 1\<close>.
\<close>

definition DATA11_STRING :: "nat \<Rightarrow> string" where
  "DATA11_STRING tv = (if tv = 0 then ''count_5um'' else ''temperature'')"

definition DATA12_STRING :: "nat \<Rightarrow> string" where
  "DATA12_STRING tv = (if tv = 0 then ''count_10um'' else ''humidity'')"

definition labels :: "nat \<Rightarrow> string list" where
  "labels tv =
     [''std_pm1'', ''std_pm2_5'', ''std_pm10'',
      ''atm_pm1'', ''atm_pm2_5'', ''atm_pm10'',
      ''count_0_3um'', ''count_0_5um'', ''count_1um'',
      ''count_2_5um'', DATA11_STRING tv, DATA12_STRING tv]"

text \<open>
  The conversions \<open>%.1f\<close> and \<open>%.02f\<close> of \<open>printf\<close> print the decimal with
  the given number of places that is nearest to the value, a tie going to the
  even last digit (glibc in the default rounding mode). \<open>printf_f places x\<close> is
  the number printed.
\<close>

definition round_half_even :: "rat \<Rightarrow> int" where
  "round_half_even x =
     (let f = \<lfloor>x\<rfloor>; r = x - of_int f in
      if r < 1 / 2 then f
      else if 1 / 2 < r then f + 1
      else if even f then f else f + 1)"

definition printf_f :: "nat \<Rightarrow> rat \<Rightarrow> rat" where
  "printf_f places x = of_int (round_half_even (x * 10 ^ places)) / 10 ^ places"

text \<open>
  Doubles. A double is a whole number of at most 53 bits times a power of two.
  \<open>round_double x\<close> is the double nearest to \<open>x\<close>: \<open>x\<close> is scaled by a power
  of two into the range from \<open>2^52\<close> to \<open>2^53\<close>, rounded there to the nearest
  whole number, a tie going to the even one, and scaled back. \<open>rd_down\<close>
  doubles a positive value below \<open>2^52\<close> until it is in the range, \<open>rd_up\<close>
  halves a value from \<open>2^53\<close> on.
\<close>

function rd_up :: "rat \<Rightarrow> rat" where
  "rd_up x = (if x < 2 ^ 53 then of_int (round_half_even x) else 2 * rd_up (x / 2))"
  by pat_completeness auto
termination
proof (relation "measure (\<lambda>x. nat \<lfloor>x\<rfloor>)")
  show "wf (measure (\<lambda>x :: rat. nat \<lfloor>x\<rfloor>))" by simp
next
  fix x :: rat
  assume "\<not> x < 2 ^ 53"
  then have x: "2 \<le> x" by simp
  then have "x / 2 \<le> x - 1" by simp
  then have "\<lfloor>x / 2\<rfloor> \<le> \<lfloor>x - 1\<rfloor>" by (rule floor_mono)
  moreover have "2 \<le> \<lfloor>x\<rfloor>" using x by (simp add: le_floor_iff)
  ultimately show "(x / 2, x) \<in> measure (\<lambda>x. nat \<lfloor>x\<rfloor>)" by simp
qed

function rd_down :: "rat \<Rightarrow> rat" where
  "rd_down x = (if x \<le> 0 \<or> 2 ^ 52 \<le> x then of_int (round_half_even x) else rd_down (2 * x) / 2)"
  by pat_completeness auto
termination
proof (relation "measure (\<lambda>x. nat \<lceil>2 ^ 52 / x\<rceil>)")
  show "wf (measure (\<lambda>x :: rat. nat \<lceil>2 ^ 52 / x\<rceil>))" by simp
next
  fix x :: rat
  define c :: rat where "c = 2 ^ 52"
  assume "\<not> (x \<le> 0 \<or> 2 ^ 52 \<le> x)"
  then have x: "0 < x" "x < c" by (simp_all add: c_def)
  define y where "y = c / x"
  have y: "1 < y" using x by (simp add: y_def)
  then have c1: "2 \<le> \<lceil>y\<rceil>" by (simp add: le_ceiling_iff)
  then have c2: "(2 :: rat) \<le> of_int \<lceil>y\<rceil>"
    by (metis of_int_le_iff of_int_numeral)
  have pos: "0 < \<lceil>y\<rceil>"
    using c1 by linarith
  have "y / 2 \<le> of_int \<lceil>y\<rceil> - 1"
    using c2 le_of_int_ceiling [of y] by linarith
  then have "y / 2 \<le> of_int (\<lceil>y\<rceil> - 1)"
    by (simp only: of_int_diff of_int_1)
  then have h: "\<lceil>y / 2\<rceil> \<le> \<lceil>y\<rceil> - 1" by (simp only: ceiling_le_iff)
  have e: "c / (2 * x) = y / 2" by (simp add: y_def)
  have l: "\<lceil>c / (2 * x)\<rceil> < \<lceil>y\<rceil>"
    unfolding e using h by linarith
  have "nat \<lceil>c / (2 * x)\<rceil> < nat \<lceil>y\<rceil>"
    unfolding zless_nat_conj using pos l by (rule conjI)
  then show "(2 * x, x) \<in> measure (\<lambda>x. nat \<lceil>2 ^ 52 / x\<rceil>)"
    unfolding in_measure c_def [symmetric] y_def .
qed

declare rd_up.simps [simp del] rd_down.simps [simp del]

definition round_double :: "rat \<Rightarrow> rat" where
  "round_double x =
     (if x = 0 then 0
      else if x < 0 then - (if - x < 2 ^ 52 then rd_down (- x) else rd_up (- x))
      else if x < 2 ^ 52 then rd_down x else rd_up x)"

text \<open>The quotient \<open>x / y\<close> of two doubles, \<open>y\<close> not 0, as the machine computes it.\<close>

definition double_div :: "rat \<Rightarrow> rat \<Rightarrow> rat" where
  "double_div x y = round_double (x / y)"

text \<open>The conversion of a \<open>size_t\<close> to \<open>double\<close>.\<close>

definition double_of_size_t :: "size_t \<Rightarrow> rat" where
  "double_of_size_t n = round_double (of_nat (unat n))"

text \<open>
  One printed line: \<open>{"timestamp":%.1f,"num_measurements":%lu\<close>, then
  \<open>,"label":%.02f\<close> for every index of the loop, then \<open>}\<close>. The record keeps
  the numbers printed and the order of the labelled fields.
\<close>

record out_record =
  timestamp :: rat
  num_measurements :: size_t
  data_fields :: "(string \<times> rat) list"

text \<open>
  Lines 75-98. The loop that prints the labelled fields is
  \<^verbatim>\<open>for (size_t i = 3; i < 12; i++)\<close>: it starts at index 3. In the T
  build the two divisions \<open>data[10] / 10.0\<close> and \<open>data[11] / 10.0\<close>, which
  are divisions of doubles, are made in the caller's array before the loop; both
  callers drop the array afterwards (\<open>data_fp\<close> is refilled by the next frame,
  the handler exits), so the function returns the record only.
\<close>

definition print_data :: "nat \<Rightarrow> int \<Rightarrow> size_t \<Rightarrow> rat list \<Rightarrow> out_record" where
  "print_data tv diff_time num data =
     (let d1 = (if tv = 1 then data[10 := double_div (data ! 10) 10] else data);
          d2 = (if tv = 1 then d1[11 := double_div (d1 ! 11) 10] else d1)
      in \<lparr>timestamp = printf_f 1 (of_int diff_time),
          num_measurements = num,
          data_fields = map (\<lambda>i. (labels tv ! i, printf_f 2 (d2 ! i))) [3..<12]\<rparr>)"

subsection \<open>The global state and the main loop\<close>

text \<open>
  \<open>avg_sum\<close> and \<open>avg_num\<close> are the two globals; \<open>stdout\<close> is the list of the
  records printed so far. \<open>clk k\<close> is the elapsed time that the call of
  \<open>print_data\<close> reads from the clock when \<open>k\<close> records have been printed before.
\<close>

record state =
  avg_sum :: "rat list"
  avg_num :: size_t
  stdout :: "out_record list"

definition init :: state where
  "init = \<lparr>avg_sum = [0, 0, 0, 0, 0, 0, 0, 0, 0, 0, 0, 0], avg_num = 0, stdout = []\<rparr>"

text \<open>
  Lines 170-175:
  \<^verbatim>\<open>for (size_t i = 0; i < 12; i++) {
    data_fp[i] = data[i + 1];
    avg_sum[i] += data_fp[i];
  }
  avg_num++;\<close>
  The two assignments of the loop body touch index \<open>i\<close> only, so the loop is
  written as the array it leaves in \<open>data_fp\<close> and the array it leaves in
  \<open>avg_sum\<close>. There is no test of \<open>average_over\<close> around it.
\<close>

definition data_fp_of :: "ushort list \<Rightarrow> rat list" where
  "data_fp_of data = map (\<lambda>i. of_nat (unat (data ! (i + 1)))) [0..<12]"

definition accumulate :: "state \<Rightarrow> rat list \<Rightarrow> state" where
  "accumulate s data_fp =
     s\<lparr>avg_sum := map (\<lambda>i. avg_sum s ! i + data_fp ! i) [0..<12],
       avg_num := avg_num s + 1\<rparr>"

text \<open>
  Lines 170-179, reached only by a frame that passed both checks: the twelve
  words after the length word are converted and added into the sums, the count
  is incremented, and \<open>if (!average_over) print_data(1, data_fp)\<close>.
\<close>

definition forward_frame :: "nat \<Rightarrow> size_t \<Rightarrow> (nat \<Rightarrow> int) \<Rightarrow> state \<Rightarrow> ushort list \<Rightarrow> state" where
  "forward_frame tv average_over clk s data =
     (let data_fp = data_fp_of data;
          s1 = accumulate s data_fp
      in if average_over = 0
         then s1\<lparr>stdout := stdout s1 @ [print_data tv (clk (length (stdout s1))) 1 data_fp]\<rparr>
         else s1)"

text \<open>
  Lines 154-179, what one pass of the loop does with the 30 bytes read after the
  marker: a rejected frame is a \<open>continue\<close>, which leaves everything as it was.
\<close>

definition process_frame :: "nat \<Rightarrow> size_t \<Rightarrow> (nat \<Rightarrow> int) \<Rightarrow> state \<Rightarrow> byte list \<Rightarrow> state" where
  "process_frame tv average_over clk s raw =
     (case frame_reader raw of
        Rejected \<Rightarrow> s
      | Forwarded data \<Rightarrow> forward_frame tv average_over clk s data)"

text \<open>
  The synchronizer and the block read, lines 146-155: one byte, which must be
  \<open>0x42\<close>; one more byte, which must be \<open>0x4d\<close>; then 30 bytes into \<open>data\<close>.
  \<open>Fatal\<close>: a \<open>forced_read\<close> ended the process. \<open>Resync\<close>: a byte was not the
  expected marker byte and \<open>continue\<close> starts the next pass; that byte has been
  read and is gone, the next pass begins with the bytes not yet read.
  \<open>Frame\<close>: the 30 bytes read after a marker, and the bytes not yet read.
\<close>

datatype sync_result = Fatal | Resync "byte list" | Frame "byte list" "byte list"

definition synchronize :: "byte list \<Rightarrow> sync_result" where
  "synchronize inp =
     (case forced_read 1 inp of
        None \<Rightarrow> Fatal
      | Some (ch, inp1) \<Rightarrow>
          if ch ! 0 \<noteq> 0x42 then Resync inp1
          else
            (case forced_read 1 inp1 of
               None \<Rightarrow> Fatal
             | Some (ch, inp2) \<Rightarrow>
                 if ch ! 0 \<noteq> 0x4d then Resync inp2
                 else
                   (case forced_read (2 * 15) inp2 of
                      None \<Rightarrow> Fatal
                    | Some (raw, inp3) \<Rightarrow> Frame raw inp3)))"

text \<open>
  One pass of \<open>for (;;)\<close>, lines 145-180. \<open>None\<close>: the process has ended.
  Otherwise the state after the pass and the bytes with which the next pass
  begins.
\<close>

definition loop_body ::
  "nat \<Rightarrow> size_t \<Rightarrow> (nat \<Rightarrow> int) \<Rightarrow> state \<Rightarrow> byte list \<Rightarrow> (state \<times> byte list) option" where
  "loop_body tv average_over clk s inp =
     (case synchronize inp of
        Fatal \<Rightarrow> None
      | Resync inp' \<Rightarrow> Some (s, inp')
      | Frame raw inp' \<Rightarrow> Some (process_frame tv average_over clk s raw, inp'))"

text \<open>
  The loop itself. It has no exit of its own: it runs until a \<open>forced_read\<close>
  finds the byte source exhausted, and the result is the state of the globals
  and of the output at that moment (the process then exits with status -1).
\<close>

function main_loop :: "nat \<Rightarrow> size_t \<Rightarrow> (nat \<Rightarrow> int) \<Rightarrow> state \<Rightarrow> byte list \<Rightarrow> state" where
  "main_loop tv average_over clk s inp =
     (case loop_body tv average_over clk s inp of
        None \<Rightarrow> s
      | Some (s', inp') \<Rightarrow> main_loop tv average_over clk s' inp')"
  by pat_completeness auto
termination
  by (relation "measure (\<lambda>(tv, average_over, clk, s, inp). length inp)")
     (auto simp: loop_body_def synchronize_def forced_read_def
           split: option.splits if_splits sync_result.splits)

declare main_loop.simps [simp del]



subsection \<open>The flush: sigalrm\_handler\<close>

text \<open>
  How the process ends: everything written to standard output, the lines written
  to standard error, and the argument of \<open>exit\<close> (the parent process sees
  \<open>-1\<close> as 255).
\<close>

record exit =
  exit_stdout :: "out_record list"
  exit_stderr :: "string list"
  exit_status :: int

text \<open>
  Lines 104-116. \<open>avg_sum[i] /= avg_num\<close> for all twelve sums (the count is
  converted to \<open>double\<close> and the division is one of doubles), then
  \<open>print_data(avg_num, avg_sum)\<close> and \<open>exit(0)\<close>; with \<open>avg_num = 0\<close> a
  warning on standard error and \<open>exit(-1)\<close>.
\<close>

definition sigalrm_handler :: "nat \<Rightarrow> (nat \<Rightarrow> int) \<Rightarrow> state \<Rightarrow> exit" where
  "sigalrm_handler tv clk s =
     (if avg_num s > 0 then
        (let avg = map (\<lambda>i. double_div (avg_sum s ! i) (double_of_size_t (avg_num s))) [0..<12]
         in \<lparr>exit_stdout = stdout s @ [print_data tv (clk (length (stdout s))) (avg_num s) avg],
             exit_stderr = [],
             exit_status = 0\<rparr>)
      else
        \<lparr>exit_stdout = stdout s,
         exit_stderr = [''warning: no data frames collected in the given time span.'' @ [CHR 0x0A]],
         exit_status = - 1\<rparr>)"

subsection \<open>The wire format in the words of the specification\<close>

text \<open>A 16-bit field of the wire, sent high byte first.\<close>

definition wire_u16 :: "byte \<Rightarrow> byte \<Rightarrow> nat" where
  "wire_u16 hi lo = 256 * unat hi + unat lo"

text \<open>
  The two checks as the specification words them, on the 30 bytes that follow
  the marker: the first field is 28, and the last field is the sum, modulo
  65536, of the two marker bytes and of every byte before that last field.
\<close>

definition spec_frame_valid :: "byte list \<Rightarrow> bool" where
  "spec_frame_valid raw \<longleftrightarrow>
     wire_u16 (raw ! 0) (raw ! 1) = 28 \<and>
     wire_u16 (raw ! 28) (raw ! 29) =
       (0x42 + 0x4d + sum_list (map unat (take 28 raw))) mod 65536"

text \<open>Data field \<open>i\<close> (0 to 11) of a frame on the wire: it follows the length field.\<close>

definition wire_field :: "byte list \<Rightarrow> nat \<Rightarrow> nat" where
  "wire_field raw i = wire_u16 (raw ! (2 * (i + 1))) (raw ! (2 * (i + 1) + 1))"


subsection \<open>The concrete scenario of the specification\<close>

text \<open>
  The 26 bytes that follow the marker in the scenario: the length field and
  twelve data fields. The code reads 30 bytes after the marker, so one more
  word follows before the checksum; \<open>scenario_frame r0 r1\<close> is the frame in which
  that word has the bytes \<open>r0\<close>, \<open>r1\<close> and the checksum is the right one.
\<close>

definition scenario_prefix :: "byte list" where
  "scenario_prefix =
     [0x00, 0x1C, 0x00, 0x05, 0x00, 0x0A, 0x00, 0x0F, 0x00, 0x14, 0x00, 0x19, 0x00, 0x1E,
      0x00, 0x02, 0x00, 0x03, 0x00, 0x04, 0x00, 0x05, 0x00, 0xC8, 0x00, 0x32]"

definition scenario_frame :: "byte \<Rightarrow> byte \<Rightarrow> byte list" where
  "scenario_frame r0 r1 =
     (let body = scenario_prefix @ [r0, r1];
          c = 0x42 + 0x4d + sum_list (map unat body)
      in body @ [of_nat (c div 256), of_nat (c mod 256)])"

text \<open>
  The second averaging scenario of the specification: two valid frames whose
  \<open>atm_pm2_5\<close> fields are 10 and 20 and whose other data fields are 0.
\<close>

definition avg_frame_10 :: "byte list" where
  "avg_frame_10 =
     [0x00, 0x1C, 0x00, 0x00, 0x00, 0x00, 0x00, 0x00, 0x00, 0x00, 0x00, 0x0A, 0x00, 0x00,
      0x00, 0x00, 0x00, 0x00, 0x00, 0x00, 0x00, 0x00, 0x00, 0x00, 0x00, 0x00,
      0x00, 0x00, 0x00, 0xB5]"

definition avg_frame_20 :: "byte list" where
  "avg_frame_20 =
     [0x00, 0x1C, 0x00, 0x00, 0x00, 0x00, 0x00, 0x00, 0x00, 0x00, 0x00, 0x14, 0x00, 0x00,
      0x00, 0x00, 0x00, 0x00, 0x00, 0x00, 0x00, 0x00, 0x00, 0x00, 0x00, 0x00,
      0x00, 0x00, 0x00, 0xBF]"




text \<open>A clock that stands still, for the concrete runs.\<close>

definition clk0 :: "nat \<Rightarrow> int" where
  "clk0 k = 0"

section \<open>Facts about the frame buffer\<close>

text \<open>Bytes, words and the byte swap.\<close>

lemma ff_mask: "(0xff :: ushort) = mask 8"
  by (simp add: mask_eq_exp_minus_1)

lemma bit_byte_lt: "bit (b :: byte) n \<Longrightarrow> n < 8"
  by (auto dest: bit_imp_le_length)

lemma unat_byte_lt: "unat (b :: byte) < 256"
  using unsigned_less [of b, where ?'a = nat] by simp

lemma unat_ucast_byte: "unat (ucast (b :: byte) :: ushort) = unat b"
  using unat_byte_lt [of b] by (simp add: unsigned_ucast_eq take_bit_nat_eq_self)

lemma unat_ucast_byte64: "unat (ucast (b :: byte) :: size_t) = unat b"
  using unat_byte_lt [of b] by (simp add: unsigned_ucast_eq take_bit_nat_eq_self)

lemma unat_ucast_ushort64: "unat (ucast (w :: ushort) :: size_t) = unat w"
  using unsigned_less [of w, where ?'a = nat] by (simp add: unsigned_ucast_eq take_bit_nat_eq_self)

lemma bswap_load: "bswap_16 (load_ushort b0 b1) = load_ushort b1 b0"
  unfolding bswap_16_def load_ushort_def ff_mask
  by (rule bit_word_eqI) (auto simp: bit_simps dest: bit_byte_lt)

lemma store_load: "store_ushort (load_ushort b0 b1) = [b0, b1]"
proof -
  have "ucast (load_ushort b0 b1) = b0"
    unfolding load_ushort_def
    by (rule bit_word_eqI) (auto simp: bit_simps dest: bit_byte_lt)
  moreover have "ucast (drop_bit 8 (load_ushort b0 b1)) = b1"
    unfolding load_ushort_def
    by (rule bit_word_eqI) (auto simp: bit_simps dest: bit_byte_lt)
  ultimately show ?thesis
    by (simp add: store_ushort_def)
qed

lemma load_plus: "load_ushort b0 b1 = ucast b0 + push_bit 8 (ucast b1)"
  unfolding load_ushort_def
  by (rule disjunctive_add [symmetric]) (auto simp: bit_simps dest: bit_byte_lt)

lemma unat_load: "unat (load_ushort b0 b1) = unat b0 + 256 * unat b1"
proof -
  have "unat (push_bit 8 (ucast b1 :: ushort)) = 256 * unat b1"
    using unat_byte_lt [of b1]
    by (simp add: push_bit_eq_mult unat_word_ariths unat_ucast_byte)
  then show ?thesis
    using unat_byte_lt [of b0] unat_byte_lt [of b1]
    by (simp add: load_plus unat_word_ariths unat_ucast_byte)
qed

lemma unat_swapped: "unat (bswap_16 (load_ushort b0 b1)) = wire_u16 b0 b1"
  by (simp add: bswap_load unat_load wire_u16_def)

lemma length_ushorts: "length (ushorts_of_bytes bs) = length bs div 2"
  by (induction bs rule: ushorts_of_bytes.induct) auto

lemma nth_ushorts:
  "2 * k + 1 < length bs \<Longrightarrow>
     ushorts_of_bytes bs ! k = load_ushort (bs ! (2 * k)) (bs ! (2 * k + 1))"
proof (induction bs arbitrary: k rule: ushorts_of_bytes.induct)
  case (1 b0 b1 bs)
  then show ?case by (cases k) auto
qed auto

lemma nth_data:
  "2 * k + 1 < length raw \<Longrightarrow>
     unat (map bswap_16 (ushorts_of_bytes raw) ! k) = wire_u16 (raw ! (2 * k)) (raw ! (2 * k + 1))"
  by (simp add: length_ushorts nth_ushorts unat_swapped)

text \<open>The byte sum over the swapped array, and the \<open>size_t\<close> sum that the code forms.\<close>

lemma sum_swapped:
  "2 * k \<le> length raw \<Longrightarrow>
     sum_list (map unat (take (2 * k) (bytes_of_ushorts (map bswap_16 (ushorts_of_bytes raw))))) =
     sum_list (map unat (take (2 * k) raw))"
proof (induction raw arbitrary: k rule: ushorts_of_bytes.induct)
  case (1 b0 b1 bs)
  show ?case
  proof (cases k)
    case 0
    then show ?thesis by simp
  next
    case (Suc j)
    with 1 have "sum_list (map unat (take (2 * j) (bytes_of_ushorts (map bswap_16 (ushorts_of_bytes bs))))) =
      sum_list (map unat (take (2 * j) bs))"
      by simp
    with Suc show ?thesis
      by (simp add: bytes_of_ushorts_def bswap_load store_load)
  qed
next
  case "2_1"
  then show ?case by simp
next
  case "2_2"
  then have "k = 0" by simp
  then show ?case by simp
qed

lemma length_mem:
  "length (bytes_of_ushorts (map bswap_16 (ushorts_of_bytes raw))) = 2 * (length raw div 2)"
  by (induction raw rule: ushorts_of_bytes.induct)
     (auto simp: bytes_of_ushorts_def store_ushort_def)

lemma fold_add_nth:
  "n \<le> length xs \<Longrightarrow>
     fold (\<lambda>i s. s + g (xs ! i)) [0..<n] (s0 :: size_t) = s0 + sum_list (map g (take n xs))"
  by (induction n) (auto simp: take_Suc_conv_app_nth)

lemma sum_bytes_le: "sum_list (map unat (bs :: byte list)) \<le> 255 * length bs"
proof (induction bs)
  case (Cons b bs)
  then show ?case using unat_byte_lt [of b] by simp
qed simp

lemma unat_sum_bytes:
  "unat (c + sum_list (map ucast (bs :: byte list)) :: size_t) =
     (unat c + sum_list (map unat bs)) mod 2 ^ 64"
proof (induction bs arbitrary: c)
  case Nil
  show ?case using unsigned_less [of c, where ?'a = nat] by simp
next
  case (Cons b bs)
  have "unat (c + sum_list (map ucast (b # bs)) :: size_t) =
          unat ((c + ucast b) + sum_list (map ucast bs) :: size_t)"
    by (simp add: add.assoc)
  also have "\<dots> = (unat (c + ucast b :: size_t) + sum_list (map unat bs)) mod 2 ^ 64"
    by (rule Cons.IH)
  also have "\<dots> = (unat c + sum_list (map unat (b # bs))) mod 2 ^ 64"
    by (simp add: unat_word_ariths unat_ucast_byte64 mod_simps add.assoc)
  finally show ?case .
qed

lemma unat_check_sum:
  assumes "length raw = 30"
  shows "unat (check_sum (map bswap_16 (ushorts_of_bytes raw))) =
           0x42 + 0x4d + sum_list (map unat (take 28 raw))"
    and "0x42 + 0x4d + sum_list (map unat (take 28 raw)) \<le> (7283::nat)"
proof -
  let ?mem = "bytes_of_ushorts (map bswap_16 (ushorts_of_bytes raw))"
  have len: "length ?mem = 30"
    using assms by (simp add: length_mem)
  have le: "sum_list (map unat (take 28 raw)) \<le> 7140"
    using sum_bytes_le [of "take 28 raw"] assms by simp
  then show "0x42 + 0x4d + sum_list (map unat (take 28 raw)) \<le> (7283::nat)"
    by simp
  have "check_sum (map bswap_16 (ushorts_of_bytes raw)) = (0x42 + 0x4d) + sum_list (map ucast (take 28 ?mem))"
    unfolding check_sum_def using len by (simp add: fold_add_nth)
  then have "unat (check_sum (map bswap_16 (ushorts_of_bytes raw))) =
      (unat (0x42 + 0x4d :: size_t) + sum_list (map unat (take 28 ?mem))) mod 2 ^ 64"
    using unat_sum_bytes [of "0x42 + 0x4d" "take 28 ?mem"] by simp
  also have "sum_list (map unat (take 28 ?mem)) = sum_list (map unat (take 28 raw))"
    using sum_swapped [of 14 raw] assms by simp
  finally show "unat (check_sum (map bswap_16 (ushorts_of_bytes raw))) =
           0x42 + 0x4d + sum_list (map unat (take 28 raw))"
    using le by simp
qed

lemma sum_bytes_update:
  "i < length bs \<Longrightarrow>
     sum_list (map unat ((bs :: byte list)[i := b])) + unat (bs ! i) = sum_list (map unat bs) + unat b"
proof (induction bs arbitrary: i)
  case (Cons a bs)
  then show ?case by (cases i) auto
qed simp

text \<open>
  The frame reader accepts exactly the frames that the specification calls valid,
  and the decoded values are the data fields of the wire.
\<close>

lemma frame_reader_spec:
  assumes "length raw = 30"
  shows "frame_reader raw =
           (if spec_frame_valid raw then Forwarded (map bswap_16 (ushorts_of_bytes raw)) else Rejected)"
proof -
  let ?data = "map bswap_16 (ushorts_of_bytes raw)"
  let ?sum = "0x42 + 0x4d + sum_list (map unat (take 28 raw))"
  have d0: "unat (?data ! 0) = wire_u16 (raw ! 0) (raw ! 1)"
    using nth_data [of 0 raw] assms by simp
  have d14: "unat (?data ! 14) = wire_u16 (raw ! 28) (raw ! 29)"
    using nth_data [of 14 raw] assms by simp
  have len: "(?data ! 0 = 2 * 13 + 2) = (wire_u16 (raw ! 0) (raw ! 1) = 28)"
    using d0 by (simp add: word_unat_eq_iff)
  have "(check_sum ?data = ucast (?data ! 14)) = (?sum = wire_u16 (raw ! 28) (raw ! 29))"
    using unat_check_sum(1) [OF assms] d14
    by (simp add: word_unat_eq_iff unat_ucast_ushort64)
  moreover have "?sum mod 65536 = ?sum"
    using unat_check_sum(2) [OF assms] by simp
  ultimately have sum: "(check_sum ?data = ucast (?data ! 14)) =
      (wire_u16 (raw ! 28) (raw ! 29) = ?sum mod 65536)"
    by auto
  show ?thesis
    unfolding frame_reader_def Let_def spec_frame_valid_def
    using len sum by simp
qed

lemma length_data_fp: "length (data_fp_of data) = 12"
  by (simp add: data_fp_of_def)

lemma data_fp_wire:
  assumes "length raw = 30"
  shows "data_fp_of (map bswap_16 (ushorts_of_bytes raw)) =
           map (\<lambda>i. of_nat (wire_field raw i)) [0..<12]"
  unfolding data_fp_of_def
proof (rule map_cong [OF refl])
  fix i
  assume "i \<in> set [0..<12]"
  then have "i < 12" by simp
  then have "unat (map bswap_16 (ushorts_of_bytes raw) ! (i + 1)) = wire_field raw i"
    using nth_data [of "i + 1" raw] assms by (simp add: wire_field_def)
  then show "(of_nat (unat (map bswap_16 (ushorts_of_bytes raw) ! (i + 1))) :: rat) =
      of_nat (wire_field raw i)"
    by (simp only:)
qed

section \<open>Facts about printing\<close>

text \<open>What \<open>printf\<close> prints: whole numbers as they are, anything else to the nearest hundredth.\<close>

lemma round_half_even_int: "round_half_even (of_int k) = k"
  by (simp add: round_half_even_def)

lemma printf_f_int: "printf_f places (of_int k) = of_int k"
proof -
  have "(of_int k :: rat) * 10 ^ places = of_int (k * 10 ^ places)"
    by simp
  then have "round_half_even (of_int k * 10 ^ places) = k * 10 ^ places"
    by (simp only: round_half_even_int)
  then show ?thesis
    by (simp add: printf_f_def)
qed

lemma printf_f_numeral: "printf_f places (numeral n) = numeral n"
  using printf_f_int [of places "numeral n"] by simp

lemma round_half_even_near: "\<bar>of_int (round_half_even y) - y\<bar> \<le> 1 / 2"
proof -
  have lo: "of_int \<lfloor>y\<rfloor> \<le> y" and hi: "y < of_int \<lfloor>y\<rfloor> + 1"
    by linarith+
  consider "y - of_int \<lfloor>y\<rfloor> < 1 / 2" | "1 / 2 < y - of_int \<lfloor>y\<rfloor>" | "y - of_int \<lfloor>y\<rfloor> = 1 / 2"
    by linarith
  then show ?thesis
  proof cases
    case 1
    then have "round_half_even y = \<lfloor>y\<rfloor>"
      by (simp add: round_half_even_def Let_def)
    then show ?thesis using lo 1 by simp
  next
    case 2
    then have "round_half_even y = \<lfloor>y\<rfloor> + 1"
      by (simp add: round_half_even_def Let_def)
    then show ?thesis using hi 2 by simp
  next
    case 3
    then have "round_half_even y = \<lfloor>y\<rfloor> \<or> round_half_even y = \<lfloor>y\<rfloor> + 1"
      by (simp add: round_half_even_def Let_def)
    then show ?thesis using 3 by auto
  qed
qed

lemma printf_f_places: "printf_f 2 x = of_int (round_half_even (x * 100)) / 100"
  by (simp add: printf_f_def)

lemma printf_f_near: "\<bar>printf_f 2 x - x\<bar> \<le> 1 / 200"
  using round_half_even_near [of "x * 100"] unfolding printf_f_places
  by linarith

lemma printf_f_hundredths: "\<exists>k :: int. printf_f 2 x = of_int k / 100"
  unfolding printf_f_places by blast








lemma print_data_head:
  "timestamp (print_data tv t n data) = of_int t" "num_measurements (print_data tv t n data) = n"
  by (simp_all add: print_data_def Let_def printf_f_int)

lemma print_data_fields:
  assumes "length data = 12"
  shows "data_fields (print_data tv t n data) =
     [(''atm_pm1'', printf_f 2 (data ! 3)), (''atm_pm2_5'', printf_f 2 (data ! 4)),
      (''atm_pm10'', printf_f 2 (data ! 5)), (''count_0_3um'', printf_f 2 (data ! 6)),
      (''count_0_5um'', printf_f 2 (data ! 7)), (''count_1um'', printf_f 2 (data ! 8)),
      (''count_2_5um'', printf_f 2 (data ! 9)),
      (DATA11_STRING tv, printf_f 2 (if tv = 1 then double_div (data ! 10) 10 else data ! 10)),
      (DATA12_STRING tv, printf_f 2 (if tv = 1 then double_div (data ! 11) 10 else data ! 11))]"
  using assms by (simp add: print_data_def Let_def labels_def upt_rec)

section \<open>Facts about the loop and the flush\<close>

text \<open>One pass of the loop on an empty stream, on a byte that is not \<open>0x42\<close>, and on a marker.\<close>

lemma synchronize_marker:
  "length raw = 30 \<Longrightarrow> synchronize (0x42 # 0x4d # raw @ rest) = Frame raw rest"
  by (simp add: synchronize_def forced_read_def)

lemma synchronize_skip: "b \<noteq> 0x42 \<Longrightarrow> synchronize (b # inp) = Resync inp"
  by (simp add: synchronize_def forced_read_def)

lemma synchronize_empty: "synchronize [] = Fatal"
  by (simp add: synchronize_def forced_read_def)

lemma loop_body_marker:
  "length raw = 30 \<Longrightarrow>
     loop_body tv average_over clk s (0x42 # 0x4d # raw @ rest) =
       Some (process_frame tv average_over clk s raw, rest)"
  by (simp add: loop_body_def synchronize_marker)

lemma loop_body_skip:
  "b \<noteq> 0x42 \<Longrightarrow> loop_body tv average_over clk s (b # inp) = Some (s, inp)"
  by (simp add: loop_body_def synchronize_skip)

lemma loop_body_empty: "loop_body tv average_over clk s [] = None"
  by (simp add: loop_body_def synchronize_empty)

lemma main_loop_empty: "main_loop tv average_over clk s [] = s"
  by (subst main_loop.simps) (simp add: loop_body_empty)

lemma main_loop_marker:
  "length raw = 30 \<Longrightarrow>
     main_loop tv average_over clk s (0x42 # 0x4d # raw @ rest) =
       main_loop tv average_over clk (process_frame tv average_over clk s raw) rest"
  by (subst main_loop.simps) (simp add: loop_body_marker)

lemma main_loop_skip:
  "b \<noteq> 0x42 \<Longrightarrow> main_loop tv average_over clk s (b # inp) = main_loop tv average_over clk s inp"
  by (subst main_loop.simps) (simp add: loop_body_skip)

lemma main_loop_garbage:
  "0x42 \<notin> set garbage \<Longrightarrow>
     main_loop tv average_over clk s (garbage @ inp) = main_loop tv average_over clk s inp"
  by (induction garbage) (auto simp: main_loop_skip)

text \<open>Every record on standard output comes from \<open>print_data\<close> applied to twelve values.\<close>

lemma process_frame_stdout:
  "stdout (process_frame tv average_over clk s raw) = stdout s \<or>
   (\<exists>t data. length data = 12 \<and>
      stdout (process_frame tv average_over clk s raw) = stdout s @ [print_data tv t 1 data])"
proof (cases "frame_reader raw")
  case Rejected
  then show ?thesis by (simp add: process_frame_def)
next
  case (Forwarded data)
  show ?thesis
  proof (cases "average_over = 0")
    case True
    with Forwarded have "stdout (process_frame tv average_over clk s raw) =
        stdout s @ [print_data tv (clk (length (stdout s))) 1 (data_fp_of data)]"
      by (simp add: process_frame_def forward_frame_def accumulate_def Let_def)
    then show ?thesis
      using length_data_fp by blast
  next
    case False
    with Forwarded show ?thesis
      by (simp add: process_frame_def forward_frame_def accumulate_def Let_def)
  qed
qed

lemma loop_body_stdout:
  assumes "loop_body tv average_over clk s inp = Some (s', inp')"
  shows "stdout s' = stdout s \<or>
         (\<exists>t data. length data = 12 \<and> stdout s' = stdout s @ [print_data tv t 1 data])"
proof -
  have "s' = s \<or> (\<exists>raw. s' = process_frame tv average_over clk s raw)"
    using assms by (fastforce simp: loop_body_def split: sync_result.splits)
  then show ?thesis
    using process_frame_stdout [of tv average_over clk s] by blast
qed

lemma main_loop_stdout_aux:
  "(\<forall>t n data. length data = 12 \<longrightarrow> P (print_data tv t n data)) \<Longrightarrow>
   \<forall>r \<in> set (stdout s). P r \<Longrightarrow>
   \<forall>r \<in> set (stdout (main_loop tv average_over clk s inp)). P r"
proof (induction tv average_over clk s inp rule: main_loop.induct)
  case (1 tv average_over clk s inp)
  show ?case
  proof (cases "loop_body tv average_over clk s inp")
    case None
    then show ?thesis
      using "1.prems" by (subst main_loop.simps) simp
  next
    case (Some p)
    obtain s' inp' where p: "p = (s', inp')"
      by (cases p)
    consider "stdout s' = stdout s"
      | t data where "length data = 12" "stdout s' = stdout s @ [print_data tv t 1 data]"
      using loop_body_stdout [OF Some [unfolded p]] by blast
    then have "\<forall>r \<in> set (stdout s'). P r"
    proof cases
      case 1
      then show ?thesis using "1.prems" by simp
    next
      case 2
      have "P (print_data tv t 1 data)"
        using "1.prems"(1) 2(1) by blast
      then show ?thesis using "1.prems"(2) 2(2) by simp
    qed
    then have "\<forall>r \<in> set (stdout (main_loop tv average_over clk s' inp')). P r"
      by (rule "1.IH" [OF Some p [symmetric] "1.prems"(1)])
    then show ?thesis
      using Some p by (subst main_loop.simps) simp
  qed
qed

lemma main_loop_stdout:
  assumes "\<And>t n data. length data = 12 \<Longrightarrow> P (print_data tv t n data)"
    and "\<forall>r \<in> set (stdout s). P r"
  shows "\<forall>r \<in> set (stdout (main_loop tv average_over clk s inp)). P r"
  using main_loop_stdout_aux [of P tv s average_over clk inp] assms by blast

lemma handler_stdout:
  assumes "\<And>t n data. length data = 12 \<Longrightarrow> P (print_data tv t n data)"
    and "\<forall>r \<in> set (stdout s). P r"
  shows "\<forall>r \<in> set (exit_stdout (sigalrm_handler tv clk s)). P r"
  using assms by (auto simp: sigalrm_handler_def Let_def)











section \<open>Facts about the scenario frames\<close>

lemma scenario_frame_00:
  "scenario_frame 0 0 =
     [0x00, 0x1C, 0x00, 0x05, 0x00, 0x0A, 0x00, 0x0F, 0x00, 0x14, 0x00, 0x19, 0x00, 0x1E,
      0x00, 0x02, 0x00, 0x03, 0x00, 0x04, 0x00, 0x05, 0x00, 0xC8, 0x00, 0x32,
      0x00, 0x00, 0x02, 0x1C]"
  by (simp add: scenario_frame_def scenario_prefix_def)

lemma scenario_data_00:
  "map bswap_16 (ushorts_of_bytes (scenario_frame 0 0)) =
     [28, 5, 10, 15, 20, 25, 30, 2, 3, 4, 5, 200, 50, 0, 540]"
  by (simp add: scenario_frame_00 bswap_16_def load_ushort_def)

lemma scenario_valid_00: "spec_frame_valid (scenario_frame 0 0)"
  by (simp add: scenario_frame_00 spec_frame_valid_def wire_u16_def)

lemma scenario_frame_eq:
  "scenario_frame r0 r1 =
     [0x00, 0x1C, 0x00, 0x05, 0x00, 0x0A, 0x00, 0x0F, 0x00, 0x14, 0x00, 0x19, 0x00, 0x1E,
      0x00, 0x02, 0x00, 0x03, 0x00, 0x04, 0x00, 0x05, 0x00, 0xC8, 0x00, 0x32,
      r0, r1,
      of_nat ((540 + unat r0 + unat r1) div 256), of_nat ((540 + unat r0 + unat r1) mod 256)]"
  by (simp add: scenario_frame_def scenario_prefix_def Let_def add.assoc)

lemma scenario_frame_len: "length (scenario_frame r0 r1) = 30"
  by (simp add: scenario_frame_eq)

lemma scenario_valid: "spec_frame_valid (scenario_frame r0 r1)"
proof -
  define c where "c = 540 + unat r0 + unat r1"
  have c: "c \<le> 1050"
    using unat_byte_lt [of r0] unat_byte_lt [of r1] by (simp add: c_def)
  have hi: "unat (of_nat (c div 256) :: byte) = c div 256"
    using c by (simp add: unat_of_nat)
  have lo: "unat (of_nat (c mod 256) :: byte) = c mod 256"
    by (simp add: unat_of_nat)
  have "wire_u16 (of_nat (c div 256)) (of_nat (c mod 256)) = c mod 65536"
    using c hi lo by (simp add: wire_u16_def)
  moreover have "0x42 + 0x4d + sum_list (map unat (take 28 (scenario_frame r0 r1))) = c"
    by (simp add: scenario_frame_eq c_def)
  ultimately show ?thesis
    unfolding spec_frame_valid_def
    by (simp add: scenario_frame_eq c_def wire_u16_def add.assoc)
qed

lemma scenario_data_fp:
  "data_fp_of (map bswap_16 (ushorts_of_bytes (scenario_frame r0 r1))) =
     [5, 10, 15, 20, 25, 30, 2, 3, 4, 5, 200, 50]"
  by (simp add: data_fp_of_def scenario_frame_eq bswap_16_def load_ushort_def upt_rec)

lemma scenario_forwarded:
  "process_frame tv average_over clk s (scenario_frame r0 r1) =
     forward_frame tv average_over clk s (map bswap_16 (ushorts_of_bytes (scenario_frame r0 r1)))"
  by (simp add: process_frame_def frame_reader_spec scenario_frame_len scenario_valid)

lemma scenario_run_streaming:
  "main_loop 0 0 clk0 init (0x42 # 0x4d # scenario_frame 0 0) =
       \<lparr>avg_sum = [5, 10, 15, 20, 25, 30, 2, 3, 4, 5, 200, 50], avg_num = 1,
        stdout = [\<lparr>timestamp = 0, num_measurements = 1,
                   data_fields = [(''atm_pm1'', 20), (''atm_pm2_5'', 25), (''atm_pm10'', 30),
                     (''count_0_3um'', 2), (''count_0_5um'', 3), (''count_1um'', 4),
                     (''count_2_5um'', 5), (''count_5um'', 200), (''count_10um'', 50)]\<rparr>]\<rparr>"
proof -
  have "main_loop 0 0 clk0 init (0x42 # 0x4d # scenario_frame 0 0) =
      forward_frame 0 0 clk0 init (map bswap_16 (ushorts_of_bytes (scenario_frame 0 0)))"
    using main_loop_marker [of "scenario_frame 0 0" 0 0 clk0 init "[]"]
    by (simp add: scenario_frame_len scenario_forwarded main_loop_empty)
  then show ?thesis
    by (simp add: forward_frame_def scenario_data_fp accumulate_def init_def print_data_def Let_def
        labels_def DATA11_STRING_def DATA12_STRING_def printf_f_numeral upt_rec clk0_def
        printf_f_int [of _ 0, simplified])
qed









section \<open>The claims\<close>


subsection \<open>C1: the fields of an emitted record\<close>

text \<open>
  Claim C1, as amended. Every record that the program emits, from the loop in
  the streaming mode or from the handler at the flush, has after the elapsed
  seconds and the measurement count exactly nine labelled fields, in this
  order: \<open>atm_pm1\<close>, \<open>atm_pm2_5\<close>, \<open>atm_pm10\<close>, \<open>count_0_3um\<close>,
  \<open>count_0_5um\<close>, \<open>count_1um\<close>, \<open>count_2_5um\<close> and the two fields that
  depend on the build (\<open>count_5um\<close>, \<open>count_10um\<close> or \<open>temperature\<close>,
  \<open>humidity\<close>). Each value is one of the twelve values handed to
  \<open>print_data\<close> (indices 3 to 11; in the T build the last two after the
  division of doubles by 10), printed with two decimals: a multiple of 1/100 at
  most 1/200 away from it. The fields \<open>std_pm1\<close>, \<open>std_pm2_5\<close> and
  \<open>std_pm10\<close> are not printed.
\<close>

theorem emitted_record_fields:
  assumes "r \<in> set (stdout (main_loop tv average_over clk init inp)) \<or>
           r \<in> set (exit_stdout (sigalrm_handler tv clk (main_loop tv average_over clk init inp)))"
  shows "(\<exists>t n data. length data = 12 \<and> timestamp r = of_int t \<and> num_measurements r = n \<and>
           data_fields r =
             [(''atm_pm1'', printf_f 2 (data ! 3)), (''atm_pm2_5'', printf_f 2 (data ! 4)),
              (''atm_pm10'', printf_f 2 (data ! 5)), (''count_0_3um'', printf_f 2 (data ! 6)),
              (''count_0_5um'', printf_f 2 (data ! 7)), (''count_1um'', printf_f 2 (data ! 8)),
              (''count_2_5um'', printf_f 2 (data ! 9)),
              (DATA11_STRING tv, printf_f 2 (if tv = 1 then double_div (data ! 10) 10 else data ! 10)),
              (DATA12_STRING tv, printf_f 2 (if tv = 1 then double_div (data ! 11) 10 else data ! 11))])
       \<and> map fst (data_fields r) =
           [''atm_pm1'', ''atm_pm2_5'', ''atm_pm10'', ''count_0_3um'', ''count_0_5um'',
            ''count_1um'', ''count_2_5um'', DATA11_STRING tv, DATA12_STRING tv]
       \<and> (\<forall>x. \<bar>printf_f 2 x - x\<bar> \<le> 1 / 200 \<and> (\<exists>k :: int. printf_f 2 x = of_int k / 100))"
proof -
  let ?P = "\<lambda>r. \<exists>t n data. length data = 12 \<and> timestamp r = of_int t \<and> num_measurements r = n \<and>
           data_fields r =
             [(''atm_pm1'', printf_f 2 (data ! 3)), (''atm_pm2_5'', printf_f 2 (data ! 4)),
              (''atm_pm10'', printf_f 2 (data ! 5)), (''count_0_3um'', printf_f 2 (data ! 6)),
              (''count_0_5um'', printf_f 2 (data ! 7)), (''count_1um'', printf_f 2 (data ! 8)),
              (''count_2_5um'', printf_f 2 (data ! 9)),
              (DATA11_STRING tv, printf_f 2 (if tv = 1 then double_div (data ! 10) 10 else data ! 10)),
              (DATA12_STRING tv, printf_f 2 (if tv = 1 then double_div (data ! 11) 10 else data ! 11))]"
  have p: "?P (print_data tv t n data)" if "length data = 12" for t n data
    apply (rule exI [of _ t], rule exI [of _ n], rule exI [of _ data])
    using that by (simp add: print_data_fields print_data_head)
  have i: "\<forall>r \<in> set (stdout init). ?P r"
    by (simp add: init_def)
  have l: "\<forall>r \<in> set (stdout (main_loop tv average_over clk init inp)). ?P r"
    using main_loop_stdout [of ?P tv init average_over clk inp, OF p i] .
  have h: "\<forall>r \<in> set (exit_stdout (sigalrm_handler tv clk (main_loop tv average_over clk init inp))). ?P r"
    using handler_stdout [of ?P tv "main_loop tv average_over clk init inp" clk, OF p l] .
  have r: "?P r"
    using assms
  proof
    assume "r \<in> set (stdout (main_loop tv average_over clk init inp))"
    then show ?thesis by (rule bspec [OF l])
  next
    assume "r \<in> set (exit_stdout (sigalrm_handler tv clk (main_loop tv average_over clk init inp)))"
    then show ?thesis by (rule bspec [OF h])
  qed
  then have f: "map fst (data_fields r) =
           [''atm_pm1'', ''atm_pm2_5'', ''atm_pm10'', ''count_0_3um'', ''count_0_5um'',
            ''count_1um'', ''count_2_5um'', DATA11_STRING tv, DATA12_STRING tv]"
    by (elim exE conjE) simp
  have "\<bar>printf_f 2 x - x\<bar> \<le> 1 / 200 \<and> (\<exists>k :: int. printf_f 2 x = of_int k / 100)" for x
    using printf_f_near [of x] printf_f_hundredths [of x] by (rule conjI)
  then have q: "\<forall>x. \<bar>printf_f 2 x - x\<bar> \<le> 1 / 200 \<and> (\<exists>k :: int. printf_f 2 x = of_int k / 100)"
    by (rule allI)
  show ?thesis
    by (rule conjI [OF r conjI [OF f q]])
qed

theorem emitted_record_fields_witness:
  "print_data 0 0 1 [5, 10, 15, 20, 25, 30, 2, 3, 4, 5, 200, 50]
     \<in> set (stdout (main_loop 0 0 clk0 init (0x42 # 0x4d # scenario_frame 0 0)))
   \<and> map fst (data_fields (print_data 0 0 1 [5, 10, 15, 20, 25, 30, 2, 3, 4, 5, 200, 50])) =
       [''atm_pm1'', ''atm_pm2_5'', ''atm_pm10'', ''count_0_3um'', ''count_0_5um'',
        ''count_1um'', ''count_2_5um'', ''count_5um'', ''count_10um'']"
proof -
  have e: "print_data 0 0 1 [5, 10, 15, 20, 25, 30, 2, 3, 4, 5, 200, 50] =
      \<lparr>timestamp = 0, num_measurements = 1,
        data_fields = [(''atm_pm1'', 20), (''atm_pm2_5'', 25), (''atm_pm10'', 30),
          (''count_0_3um'', 2), (''count_0_5um'', 3), (''count_1um'', 4),
          (''count_2_5um'', 5), (''count_5um'', 200), (''count_10um'', 50)]\<rparr>"
    by (simp add: print_data_def Let_def labels_def DATA11_STRING_def DATA12_STRING_def
        printf_f_numeral printf_f_int [of _ 0, simplified] upt_rec)
  have m: "print_data 0 0 1 [5, 10, 15, 20, 25, 30, 2, 3, 4, 5, 200, 50]
     \<in> set (stdout (main_loop 0 0 clk0 init (0x42 # 0x4d # scenario_frame 0 0)))"
    unfolding scenario_run_streaming e by simp
  show ?thesis
    using emitted_record_fields [of "print_data 0 0 1 [5, 10, 15, 20, 25, 30, 2, 3, 4, 5, 200, 50]"
        0 0 clk0 "0x42 # 0x4d # scenario_frame 0 0"] m
    by (simp add: DATA11_STRING_def DATA12_STRING_def)
qed

text \<open>
  The claim as it was stated lists \<open>std_pm1\<close>, \<open>std_pm2_5\<close> and \<open>std_pm10\<close>
  first among the fields of every record. The record printed for the scenario
  frame starts with \<open>atm_pm1\<close> and has no field \<open>std_pm1\<close>.
\<close>

theorem std_fields_not_printed_counterexample:
  "stdout (main_loop 0 0 clk0 init (0x42 # 0x4d # scenario_frame 0 0)) =
     [\<lparr>timestamp = 0, num_measurements = 1,
        data_fields = [(''atm_pm1'', 20), (''atm_pm2_5'', 25), (''atm_pm10'', 30),
          (''count_0_3um'', 2), (''count_0_5um'', 3), (''count_1um'', 4),
          (''count_2_5um'', 5), (''count_5um'', 200), (''count_10um'', 50)]\<rparr>]
   \<and> map fst (data_fields (hd (stdout (main_loop 0 0 clk0 init (0x42 # 0x4d # scenario_frame 0 0))))) \<noteq>
       [''std_pm1'', ''std_pm2_5'', ''std_pm10'', ''atm_pm1'', ''atm_pm2_5'', ''atm_pm10'',
        ''count_0_3um'', ''count_0_5um'', ''count_1um'', ''count_2_5um'', ''count_5um'', ''count_10um'']
   \<and> map_of (data_fields (hd (stdout (main_loop 0 0 clk0 init (0x42 # 0x4d # scenario_frame 0 0)))))
       ''std_pm1'' = None"
  unfolding scenario_run_streaming by simp

subsection \<open>C2: the synchronizer\<close>

text \<open>
  Claim C2, as amended. Let the stream be any number of bytes none of which is
  \<open>0x42\<close>, then the marker \<open>0x42 0x4d\<close>, then a valid frame of 30 bytes,
  then anything. Every byte before the marker is read and dropped with the
  state untouched, the frame after the marker is the one that is decoded, and
  the loop goes on with the first byte behind the frame.
\<close>

theorem synchronizer_skips_garbage:
  assumes "0x42 \<notin> set garbage" and "length frame = 30" and "frame_reader frame \<noteq> Rejected"
  shows "main_loop tv average_over clk s (garbage @ 0x42 # 0x4d # frame @ rest) =
           main_loop tv average_over clk
             (forward_frame tv average_over clk s (map bswap_16 (ushorts_of_bytes frame))) rest"
proof -
  have "frame_reader frame = Forwarded (map bswap_16 (ushorts_of_bytes frame))"
    using assms by (simp add: frame_reader_spec split: if_splits)
  then show ?thesis
    using assms by (simp add: main_loop_garbage main_loop_marker process_frame_def)
qed

theorem synchronizer_skips_garbage_witness:
  "(0x42 :: byte) \<notin> set [0x4d, 0x00, 0xff] \<and> length (scenario_frame 0 0) = 30
   \<and> frame_reader (scenario_frame 0 0) \<noteq> Rejected
   \<and> main_loop 0 0 clk0 init ([0x4d, 0x00, 0xff] @ 0x42 # 0x4d # scenario_frame 0 0 @ []) =
       main_loop 0 0 clk0 init (0x42 # 0x4d # scenario_frame 0 0)
   \<and> stdout (main_loop 0 0 clk0 init ([0x4d, 0x00, 0xff] @ 0x42 # 0x4d # scenario_frame 0 0 @ [])) \<noteq> []"
proof -
  have l: "length (scenario_frame 0 0) = 30"
    by (rule scenario_frame_len)
  have ok: "frame_reader (scenario_frame 0 0) \<noteq> Rejected"
    by (simp add: frame_reader_spec [OF l] scenario_valid)
  have g: "(0x42 :: byte) \<notin> set [0x4d, 0x00, 0xff]"
    by simp
  have f: "forward_frame 0 0 clk0 init (map bswap_16 (ushorts_of_bytes (scenario_frame 0 0))) =
      main_loop 0 0 clk0 init (0x42 # 0x4d # scenario_frame 0 0)"
    using main_loop_marker [of "scenario_frame 0 0" 0 0 clk0 init "[]"]
    by (simp add: scenario_frame_len scenario_forwarded main_loop_empty)
  have "stdout (main_loop 0 0 clk0 init (0x42 # 0x4d # scenario_frame 0 0)) \<noteq> []"
    unfolding scenario_run_streaming by simp
  then show ?thesis
    using synchronizer_skips_garbage [OF g l ok, of 0 0 clk0 init "[]"] l ok
    by (simp add: main_loop_empty f)
qed

text \<open>
  The claim as it was stated also covers a stray \<open>0x42\<close> right before the
  marker. There the second \<open>forced_read\<close> takes the marker's own \<open>0x42\<close>,
  finds it different from \<open>0x4d\<close> and drops it; the next pass starts at
  \<open>0x4d\<close>, and the frame, which alone is printed, is never seen.
\<close>

theorem stray_marker_byte_counterexample:
  "frame_reader (scenario_frame 0 0) \<noteq> Rejected
   \<and> stdout (main_loop 0 0 clk0 init (0x42 # 0x4d # scenario_frame 0 0)) \<noteq> []
   \<and> main_loop 0 0 clk0 init (0x42 # 0x42 # 0x4d # scenario_frame 0 0) = init"
proof -
  have ok: "frame_reader (scenario_frame 0 0) \<noteq> Rejected"
    by (simp add: frame_reader_spec scenario_frame_len scenario_valid)
  have "loop_body 0 0 clk0 init (0x42 # 0x42 # 0x4d # scenario_frame 0 0) =
      Some (init, 0x4d # scenario_frame 0 0)"
    by (simp add: loop_body_def synchronize_def forced_read_def)
  then have "main_loop 0 0 clk0 init (0x42 # 0x42 # 0x4d # scenario_frame 0 0) =
      main_loop 0 0 clk0 init (0x4d # scenario_frame 0 0)"
    by (subst main_loop.simps) simp
  also have "\<dots> = main_loop 0 0 clk0 init []"
    using main_loop_garbage [of "0x4d # scenario_frame 0 0" 0 0 clk0 init "[]"]
    by (simp add: scenario_frame_00)
  finally have "main_loop 0 0 clk0 init (0x42 # 0x42 # 0x4d # scenario_frame 0 0) = init"
    by (simp add: main_loop_empty)
  moreover have "stdout (main_loop 0 0 clk0 init (0x42 # 0x4d # scenario_frame 0 0)) \<noteq> []"
    unfolding scenario_run_streaming by simp
  ultimately show ?thesis
    using ok by simp
qed

subsection \<open>C3: the streaming mode\<close>

text \<open>
  Claim C3, as amended. With \<open>average_over = 0\<close>, a pass of the loop over a
  valid frame prints exactly one record at once, and that record is made from
  the twelve data fields of this frame alone (and the clock): nothing of
  \<open>avg_sum\<close> or \<open>avg_num\<close> enters it. The running sums and the count are
  updated all the same, since lines 170-175 do not look at the mode: each sum
  grows by the frame's field and the count by one.
\<close>

theorem streaming_emits_frame_only:
  assumes "length raw = 30" and "frame_reader raw \<noteq> Rejected"
  shows "loop_body tv 0 clk s (0x42 # 0x4d # raw @ rest) =
           Some (s\<lparr>avg_sum := map (\<lambda>i. avg_sum s ! i + of_nat (wire_field raw i)) [0..<12],
                   avg_num := avg_num s + 1,
                   stdout := stdout s @
                     [print_data tv (clk (length (stdout s))) 1
                        (map (\<lambda>i. of_nat (wire_field raw i)) [0..<12])]\<rparr>, rest)"
proof -
  have "frame_reader raw = Forwarded (map bswap_16 (ushorts_of_bytes raw))"
    using assms by (simp add: frame_reader_spec split: if_splits)
  then show ?thesis
    using assms(1)
    by (simp add: loop_body_marker process_frame_def forward_frame_def accumulate_def Let_def
        data_fp_wire)
qed

theorem streaming_emits_frame_only_witness:
  "length (scenario_frame 0 0) = 30 \<and> frame_reader (scenario_frame 0 0) \<noteq> Rejected
   \<and> loop_body 0 0 clk0 init (0x42 # 0x4d # scenario_frame 0 0 @ []) =
       Some (\<lparr>avg_sum = [5, 10, 15, 20, 25, 30, 2, 3, 4, 5, 200, 50], avg_num = 1,
        stdout = [print_data 0 0 1 [5, 10, 15, 20, 25, 30, 2, 3, 4, 5, 200, 50]]\<rparr>, [])"
proof -
  have l: "length (scenario_frame 0 0) = 30"
    by (rule scenario_frame_len)
  have ok: "frame_reader (scenario_frame 0 0) \<noteq> Rejected"
    by (simp add: frame_reader_spec [OF l] scenario_valid)
  have w: "map (\<lambda>i. of_nat (wire_field (scenario_frame 0 0) i)) [0..<12] =
      [5, 10, 15, 20, 25, 30, 2, 3, 4, 5, 200, (50::rat)]"
    by (simp add: scenario_frame_00 wire_field_def wire_u16_def upt_rec)
  have z: "map (\<lambda>i. avg_sum init ! i + of_nat (wire_field (scenario_frame 0 0) i)) [0..<12] =
      [5, 10, 15, 20, 25, 30, 2, 3, 4, 5, 200, (50::rat)]"
    by (simp add: scenario_frame_00 wire_field_def wire_u16_def upt_rec init_def)
  show ?thesis
    using streaming_emits_frame_only [OF l ok, of 0 clk0 init "[]"] l ok
    unfolding w z by (simp add: init_def clk0_def)
qed

text \<open>
  The claim as it was stated says that the sums and the count are unchanged by a
  measurement in the streaming mode. After the scenario frame they are not what
  they were.
\<close>

theorem streaming_state_changes_counterexample:
  "avg_num (main_loop 0 0 clk0 init (0x42 # 0x4d # scenario_frame 0 0)) \<noteq> avg_num init
   \<and> avg_sum (main_loop 0 0 clk0 init (0x42 # 0x4d # scenario_frame 0 0)) \<noteq> avg_sum init"
  unfolding scenario_run_streaming by (simp add: init_def)

subsection \<open>C4: the flush after K frames\<close>




subsection \<open>C5: which frames are forwarded\<close>

text \<open>
  Claim C5. A block of 30 bytes read after the marker is forwarded to decoding
  if and only if its first 16-bit field is 28 and its last 16-bit field is the
  sum, modulo 65536, of \<open>0x42\<close>, \<open>0x4d\<close> and every byte before that last field.
  A block that fails a check is dropped: the pass of the loop ends with the
  state and the output as they were, and the next pass starts behind the block.
\<close>

theorem frame_forwarded_iff_valid:
  assumes "length raw = 30"
  shows "(frame_reader raw = Forwarded (map bswap_16 (ushorts_of_bytes raw)) \<longleftrightarrow> spec_frame_valid raw)
       \<and> (frame_reader raw = Rejected \<longleftrightarrow> \<not> spec_frame_valid raw)
       \<and> loop_body tv average_over clk s (0x42 # 0x4d # raw @ rest) =
           Some (if spec_frame_valid raw
                 then forward_frame tv average_over clk s (map bswap_16 (ushorts_of_bytes raw))
                 else s, rest)"
  using assms
  by (simp add: loop_body_marker process_frame_def frame_reader_spec)

theorem frame_forwarded_iff_valid_witness:
  "length (scenario_frame 0 0) = 30
   \<and> spec_frame_valid (scenario_frame 0 0)
   \<and> frame_reader (scenario_frame 0 0) = Forwarded [28, 5, 10, 15, 20, 25, 30, 2, 3, 4, 5, 200, 50, 0, 540]
   \<and> \<not> spec_frame_valid ((scenario_frame 0 0)[29 := 0x1D])
   \<and> frame_reader ((scenario_frame 0 0)[29 := 0x1D]) = Rejected
   \<and> loop_body 0 0 clk0 init (0x42 # 0x4d # (scenario_frame 0 0)[29 := 0x1D] @ []) = Some (init, [])"
proof -
  have l: "length (scenario_frame 0 0) = 30" "length ((scenario_frame 0 0)[29 := 0x1D]) = 30"
    by (simp_all add: scenario_frame_00)
  have v: "\<not> spec_frame_valid ((scenario_frame 0 0)[29 := 0x1D])"
    by (simp add: scenario_frame_00 spec_frame_valid_def wire_u16_def)
  show ?thesis
    using frame_forwarded_iff_valid [OF l(1), of 0 0 clk0 init "[]"]
      frame_forwarded_iff_valid [OF l(2), of 0 0 clk0 init "[]"]
      l v scenario_valid_00 scenario_data_00
    by simp
qed

subsection \<open>C6: the concrete scenario\<close>

text \<open>
  Claim C6. The wire frame that begins
  \<open>42 4D 00 1C 00 05 00 0A 00 0F 00 14 00 19 00 1E 00 02 00 03 00 04 00 05 00 C8 00 32\<close>
  and ends with the right checksum (whatever the two bytes \<open>r0\<close>, \<open>r1\<close> of the
  word between the last data field and the checksum are) passes both checks and
  decodes to 5, 10, 15, 20, 25, 30 and the counts 2, 3, 4, 5, 200, 50, each the
  big-endian value of its two bytes on the wire. With \<open>average_over = 0\<close> the loop prints it
  at once: the output grows by exactly one record, whose count is 1. Last
  conjunct: the whole run from the initial state in the default build.
\<close>

theorem scenario_decoded_and_streamed:
  "take 28 (0x42 # 0x4d # scenario_frame r0 r1) =
     [0x42, 0x4D, 0x00, 0x1C, 0x00, 0x05, 0x00, 0x0A, 0x00, 0x0F, 0x00, 0x14, 0x00, 0x19,
      0x00, 0x1E, 0x00, 0x02, 0x00, 0x03, 0x00, 0x04, 0x00, 0x05, 0x00, 0xC8, 0x00, 0x32]
   \<and> spec_frame_valid (scenario_frame r0 r1)
   \<and> frame_reader (scenario_frame r0 r1) =
       Forwarded (map bswap_16 (ushorts_of_bytes (scenario_frame r0 r1)))
   \<and> data_fp_of (map bswap_16 (ushorts_of_bytes (scenario_frame r0 r1))) =
       [5, 10, 15, 20, 25, 30, 2, 3, 4, 5, 200, 50]
   \<and> data_fp_of (map bswap_16 (ushorts_of_bytes (scenario_frame r0 r1))) =
       map (\<lambda>i. of_nat (wire_field (scenario_frame r0 r1) i)) [0..<12]
   \<and> stdout (main_loop tv 0 clk s (0x42 # 0x4d # scenario_frame r0 r1)) =
       stdout s @ [print_data tv (clk (length (stdout s))) 1 [5, 10, 15, 20, 25, 30, 2, 3, 4, 5, 200, 50]]
   \<and> num_measurements (print_data tv (clk (length (stdout s))) 1 [5, 10, 15, 20, 25, 30, 2, 3, 4, 5, 200, 50]) = 1
   \<and> main_loop 0 0 clk init (0x42 # 0x4d # scenario_frame r0 r1) =
       \<lparr>avg_sum = [5, 10, 15, 20, 25, 30, 2, 3, 4, 5, 200, 50], avg_num = 1,
        stdout = [\<lparr>timestamp = of_int (clk 0), num_measurements = 1,
                   data_fields = [(''atm_pm1'', 20), (''atm_pm2_5'', 25), (''atm_pm10'', 30),
                     (''count_0_3um'', 2), (''count_0_5um'', 3), (''count_1um'', 4),
                     (''count_2_5um'', 5), (''count_5um'', 200), (''count_10um'', 50)]\<rparr>]\<rparr>"
proof -
  have run: "main_loop tv 0 clk s (0x42 # 0x4d # scenario_frame r0 r1) =
      forward_frame tv 0 clk s (map bswap_16 (ushorts_of_bytes (scenario_frame r0 r1)))" for tv s
    using main_loop_marker [of "scenario_frame r0 r1" tv 0 clk s "[]"]
    by (simp add: scenario_frame_len scenario_forwarded main_loop_empty)
  have a: "take 28 (0x42 # 0x4d # scenario_frame r0 r1) =
     [0x42, 0x4D, 0x00, 0x1C, 0x00, 0x05, 0x00, 0x0A, 0x00, 0x0F, 0x00, 0x14, 0x00, 0x19,
      0x00, 0x1E, 0x00, 0x02, 0x00, 0x03, 0x00, 0x04, 0x00, 0x05, 0x00, 0xC8, 0x00, 0x32]"
    by (simp add: scenario_frame_eq)
  have b: "frame_reader (scenario_frame r0 r1) =
       Forwarded (map bswap_16 (ushorts_of_bytes (scenario_frame r0 r1)))"
    by (simp add: frame_reader_spec scenario_frame_len scenario_valid)
  have c: "stdout (main_loop tv 0 clk s (0x42 # 0x4d # scenario_frame r0 r1)) =
       stdout s @ [print_data tv (clk (length (stdout s))) 1 [5, 10, 15, 20, 25, 30, 2, 3, 4, 5, 200, 50]]"
    by (simp add: run forward_frame_def scenario_data_fp accumulate_def Let_def)
  have d: "num_measurements (print_data tv (clk (length (stdout s))) 1 [5, 10, 15, 20, 25, 30, 2, 3, 4, 5, 200, 50]) = 1"
    by (simp add: print_data_def Let_def)
  have e: "main_loop 0 0 clk init (0x42 # 0x4d # scenario_frame r0 r1) =
       \<lparr>avg_sum = [5, 10, 15, 20, 25, 30, 2, 3, 4, 5, 200, 50], avg_num = 1,
        stdout = [\<lparr>timestamp = of_int (clk 0), num_measurements = 1,
                   data_fields = [(''atm_pm1'', 20), (''atm_pm2_5'', 25), (''atm_pm10'', 30),
                     (''count_0_3um'', 2), (''count_0_5um'', 3), (''count_1um'', 4),
                     (''count_2_5um'', 5), (''count_5um'', 200), (''count_10um'', 50)]\<rparr>]\<rparr>"
    by (simp add: run forward_frame_def scenario_data_fp accumulate_def init_def print_data_def Let_def
        labels_def DATA11_STRING_def DATA12_STRING_def printf_f_int printf_f_numeral upt_rec)
  have f: "data_fp_of (map bswap_16 (ushorts_of_bytes (scenario_frame r0 r1))) =
       map (\<lambda>i. of_nat (wire_field (scenario_frame r0 r1) i)) [0..<12]"
    by (rule data_fp_wire [OF scenario_frame_len])
  show ?thesis
    by (rule conjI [OF a conjI [OF scenario_valid conjI [OF b conjI [OF scenario_data_fp
          conjI [OF f conjI [OF c conjI [OF d e]]]]]]])
qed

subsection \<open>C7: a flush with nothing collected\<close>

text \<open>
  Claim C7. When the handler runs with \<open>avg_num = 0\<close>, it prints no record
  (standard output stays as it was), writes the warning to standard error and
  exits with status -1, which is not 0.
\<close>

theorem flush_without_frames:
  assumes "avg_num s = 0"
  shows "sigalrm_handler tv clk s =
           \<lparr>exit_stdout = stdout s,
            exit_stderr = [''warning: no data frames collected in the given time span.'' @ [CHR 0x0A]],
            exit_status = - 1\<rparr>
       \<and> exit_status (sigalrm_handler tv clk s) \<noteq> 0"
  using assms by (simp add: sigalrm_handler_def)

theorem flush_without_frames_witness:
  "avg_num init = 0
   \<and> exit_stdout (sigalrm_handler 0 clk0 init) = []
   \<and> exit_status (sigalrm_handler 0 clk0 init) = - 1"
  using flush_without_frames [of init 0 clk0] by (simp add: init_def)

subsection \<open>C8: one corrupted byte\<close>

text \<open>
  Claim C8. Take a block of 30 bytes that the frame reader forwards and change
  exactly one of its first 28 bytes (the bytes under the checksum) to a
  different value: the frame reader rejects the result. The byte sum moves by
  the difference of the two byte values, which is neither 0 nor a multiple of
  65536, while the checksum field stays.
\<close>

theorem single_byte_corruption_rejected:
  assumes len: "length raw = 30"
    and ok: "frame_reader raw \<noteq> Rejected"
    and i: "i < 28"
    and b: "b \<noteq> raw ! i"
  shows "frame_reader (raw[i := b]) = Rejected"
proof (rule ccontr)
  assume "frame_reader (raw[i := b]) \<noteq> Rejected"
  then have v': "spec_frame_valid (raw[i := b])"
    using len by (simp add: frame_reader_spec split: if_splits)
  have v: "spec_frame_valid raw"
    using ok len by (simp add: frame_reader_spec split: if_splits)
  let ?s = "sum_list (map unat (take 28 raw))"
  let ?s' = "sum_list (map unat (take 28 (raw[i := b])))"
  have le: "0x42 + 0x4d + ?s \<le> 7283"
    using unat_check_sum(2) [OF len] .
  have le': "0x42 + 0x4d + ?s' \<le> 7283"
    using unat_check_sum(2) [of "raw[i := b]"] len by simp
  have "(0x42 + 0x4d + ?s') mod 65536 = (0x42 + 0x4d + ?s) mod 65536"
    using v v' i by (simp add: spec_frame_valid_def)
  then have eq: "?s' = ?s"
    using le le' by simp
  have "take 28 (raw[i := b]) = (take 28 raw)[i := b]"
    using i by (simp add: take_update_swap)
  then have "?s' + unat (take 28 raw ! i) = ?s + unat b"
    using sum_bytes_update [of i "take 28 raw" b] i len by simp
  then have "unat (raw ! i) = unat b"
    using eq i by simp
  then show False
    using b by (simp add: word_unat_eq_iff)
qed

theorem single_byte_corruption_rejected_witness:
  "length (scenario_frame 0 0) = 30
   \<and> frame_reader (scenario_frame 0 0) \<noteq> Rejected
   \<and> (5 :: nat) < 28
   \<and> (0x0B :: byte) \<noteq> scenario_frame 0 0 ! 5
   \<and> frame_reader ((scenario_frame 0 0)[5 := 0x0B]) = Rejected"
proof -
  have l: "length (scenario_frame 0 0) = 30"
    by (simp add: scenario_frame_00)
  have ok: "frame_reader (scenario_frame 0 0) \<noteq> Rejected"
    by (simp add: frame_reader_spec [OF l] scenario_valid_00)
  have b: "(0x0B :: byte) \<noteq> scenario_frame 0 0 ! 5"
    by (simp add: scenario_frame_00)
  show ?thesis
    using single_byte_corruption_rejected [OF l ok _ b] l ok b by simp
qed

subsection \<open>C9: the sum over the swapped buffer\<close>

text \<open>
  Claim C9. For the 30 bytes \<open>raw\<close> read after the marker, the \<open>size_t\<close> sum
  that the code forms over the first 28 bytes of the byte-swapped array is the
  sum of the first 28 bytes as they came over the wire, plus the two marker
  bytes: the 28 bytes are 14 whole words, and a swap inside a word keeps its
  byte sum. The sum is at most 7283, so no addition wraps, and the comparison of
  the sum with \<open>data[14]\<close> holds exactly when the checksum field of the wire is
  the sum modulo 65536.
\<close>

theorem checksum_of_swapped_buffer:
  assumes "length raw = 30"
  shows "sum_list (map unat (take 28 (bytes_of_ushorts (map bswap_16 (ushorts_of_bytes raw))))) =
           sum_list (map unat (take 28 raw))
       \<and> unat (check_sum (map bswap_16 (ushorts_of_bytes raw))) =
           0x42 + 0x4d + sum_list (map unat (take 28 raw))
       \<and> 0x42 + 0x4d + sum_list (map unat (take 28 raw)) \<le> (7283 :: nat)
       \<and> (check_sum (map bswap_16 (ushorts_of_bytes raw)) =
            ucast (map bswap_16 (ushorts_of_bytes raw) ! 14)
          \<longleftrightarrow> wire_u16 (raw ! 28) (raw ! 29) =
            (0x42 + 0x4d + sum_list (map unat (take 28 raw))) mod 65536)"
proof -
  let ?data = "map bswap_16 (ushorts_of_bytes raw)"
  let ?sum = "0x42 + 0x4d + sum_list (map unat (take 28 raw))"
  have m: "sum_list (map unat (take 28 (bytes_of_ushorts ?data))) =
           sum_list (map unat (take 28 raw))"
    using sum_swapped [of 14 raw] assms by simp
  have s: "unat (check_sum ?data) = ?sum" and le: "?sum \<le> 7283"
    using unat_check_sum [OF assms] by simp_all
  have d14: "unat (?data ! 14) = wire_u16 (raw ! 28) (raw ! 29)"
    using nth_data [of 14 raw] assms by simp
  have "(check_sum ?data = ucast (?data ! 14)) = (?sum = wire_u16 (raw ! 28) (raw ! 29))"
    using s d14 by (simp add: word_unat_eq_iff unat_ucast_ushort64)
  moreover have "?sum mod 65536 = ?sum"
    using le by simp
  ultimately show ?thesis
    using m s le by auto
qed

theorem checksum_of_swapped_buffer_witness:
  "length (scenario_frame 7 9) = 30
   \<and> unat (check_sum (map bswap_16 (ushorts_of_bytes (scenario_frame 7 9)))) = 556
   \<and> 0x42 + 0x4d + sum_list (map unat (take 28 (scenario_frame 7 9))) = (556 :: nat)"
  using checksum_of_swapped_buffer [of "scenario_frame 7 9"]
  by (simp add: scenario_frame_def scenario_prefix_def)

subsection \<open>C10: a rejected frame leaves no trace\<close>

text \<open>
  Claim C10. A pass of the loop that reads a frame and rejects it (wrong
  declared length or checksum mismatch) leaves the twelve sums, the count and
  the output exactly as they were, whatever \<open>average_over\<close> is: in the
  streaming mode and in the accumulating mode. The loop goes on behind the frame.
\<close>

theorem rejected_frame_changes_nothing:
  assumes "length raw = 30" and "frame_reader raw = Rejected"
  shows "loop_body tv average_over clk s (0x42 # 0x4d # raw @ rest) = Some (s, rest)
       \<and> main_loop tv average_over clk s (0x42 # 0x4d # raw @ rest) =
           main_loop tv average_over clk s rest"
  using assms by (simp add: loop_body_marker main_loop_marker process_frame_def)

theorem rejected_frame_changes_nothing_witness:
  "length ((scenario_frame 0 0)[1 := 0x1D]) = 30
   \<and> frame_reader ((scenario_frame 0 0)[1 := 0x1D]) = Rejected
   \<and> frame_reader ((scenario_frame 0 0)[5 := 0x0B]) = Rejected
   \<and> main_loop 0 0 clk0 init (0x42 # 0x4d # (scenario_frame 0 0)[1 := 0x1D] @ []) = init
   \<and> main_loop 0 60 clk0 init (0x42 # 0x4d # (scenario_frame 0 0)[5 := 0x0B] @ []) = init"
proof -
  have l: "length ((scenario_frame 0 0)[1 := 0x1D]) = 30" "length ((scenario_frame 0 0)[5 := 0x0B]) = 30"
    by (simp_all add: scenario_frame_00)
  have r: "frame_reader ((scenario_frame 0 0)[1 := 0x1D]) = Rejected"
    "frame_reader ((scenario_frame 0 0)[5 := 0x0B]) = Rejected"
    unfolding frame_reader_spec [OF l(1)] frame_reader_spec [OF l(2)]
    by (simp_all add: scenario_frame_00 spec_frame_valid_def wire_u16_def)
  show ?thesis
    using rejected_frame_changes_nothing [OF l(1) r(1), of 0 0 clk0 init "[]"]
      rejected_frame_changes_nothing [OF l(2) r(2), of 0 60 clk0 init "[]"] l r
    by (simp add: main_loop_empty)
qed

end
